theory Spec2Isabelle
  imports Main "HOL-Library.AList" "HOL-Library.Word"
begin

section \<open>The room server: HTTP handlers, subscriber registry and fan-out\<close>

text \<open>
  The theory embeds package \<open>api\<close> of the server: \<open>readRoom\<close> and \<open>sendJSON\<close>
  (the helper file) and the handlers, \<open>handleSubscribe\<close> and \<open>notifyClients\<close> (the handler
  file). A handler is a function from what it reads (the request, the answers of its
  collaborators, the registry) to the list of effects it performs, in program order, and
  the registry it leaves behind.
\<close>

subsection \<open>Values of the libraries the package uses\<close>

text \<open>JSON documents, as \<open>encoding/json\<close> produces them (before rendering to bytes).\<close>

datatype json =
    JNull
  | JString string
  | JNumber int
  | JArray "json list"
  | JObject "(string \<times> json) list"

text \<open>
  A Go \<open>error\<close> value. \<open>ErrNoRows\<close> stands for every error \<open>err\<close> with
  \<open>errors.Is(err, pgx.ErrNoRows)\<close>; \<open>Err d\<close> is any other error, with its text \<open>d\<close>.
\<close>

datatype err = ErrNoRows | Err string

type_synonym uuid = "128 word"

text \<open>
  The identity of a \<open>*websocket.Conn\<close> (its address) and the identity of the context that a
  \<open>context.CancelFunc\<close> cancels.
\<close>

type_synonym conn = nat
type_synonym cancel = nat

subsection \<open>Types and constants of the package\<close>

datatype payload =
    MessageMessageCreated string string
  | MessageMessageReactionCount string "64 word"

record Message =
  Kind :: string
  Value :: payload
  RoomID :: string

abbreviation MsgFailedToGetMessage :: string where
  "MsgFailedToGetMessage \<equiv> ''failed to get message''"
abbreviation MsgFailedToGetRoom :: string where
  "MsgFailedToGetRoom \<equiv> ''failed to get room''"
abbreviation MsgFailedToGetRoomMessages :: string where
  "MsgFailedToGetRoomMessages \<equiv> ''failed to get room messages''"
abbreviation MsgFailedToGetRooms :: string where
  "MsgFailedToGetRooms \<equiv> ''failed to get rooms''"
abbreviation MsgFailedToInsertMessage :: string where
  "MsgFailedToInsertMessage \<equiv> ''failed to insert message''"
abbreviation MsgFailedToInsertRoom :: string where
  "MsgFailedToInsertRoom \<equiv> ''failed to insert room''"
abbreviation MsgFailedToReactToMessage :: string where
  "MsgFailedToReactToMessage \<equiv> ''failed to react to message''"
abbreviation MsgFailedToSendMessage :: string where
  "MsgFailedToSendMessage \<equiv> ''failed to send message to client''"
abbreviation MsgFailedToUpgradeConnection :: string where
  "MsgFailedToUpgradeConnection \<equiv> ''failed to upgrade to websocket connection''"
abbreviation MsgInvalidJSON :: string where
  "MsgInvalidJSON \<equiv> ''invalid json''"
abbreviation MsgInvalidMessageID :: string where
  "MsgInvalidMessageID \<equiv> ''invalid message id''"
abbreviation MsgInvalidRoomID :: string where
  "MsgInvalidRoomID \<equiv> ''invalid room id''"
abbreviation MsgMessageNotFound :: string where
  "MsgMessageNotFound \<equiv> ''message not found''"
abbreviation MsgNewClientConnected :: string where
  "MsgNewClientConnected \<equiv> ''new client connected''"
abbreviation MsgRoomNotFound :: string where
  "MsgRoomNotFound \<equiv> ''room not found''"
abbreviation MsgSomethingWentWrong :: string where
  "MsgSomethingWentWrong \<equiv> ''something went wrong''"

abbreviation MessageKindMessageCreated :: string where
  "MessageKindMessageCreated \<equiv> ''message_created''"
abbreviation MessageKindMessageRactionIncreased :: string where
  "MessageKindMessageRactionIncreased \<equiv> ''message_reaction_increased''"
abbreviation MessageKindMessageRactionDecreased :: string where
  "MessageKindMessageRactionDecreased \<equiv> ''message_reaction_decreased''"
abbreviation MessageKindMessageAnswered :: string where
  "MessageKindMessageAnswered \<equiv> ''message_answered''"

abbreviation StatusBadRequest :: nat where
  "StatusBadRequest \<equiv> 400"
abbreviation StatusNotFound :: nat where
  "StatusNotFound \<equiv> 404"
abbreviation StatusInternalServerError :: nat where
  "StatusInternalServerError \<equiv> 500"

subsection \<open>Serialisation\<close>

text \<open>
  \<open>json.Marshal\<close> of a \<open>Message\<close> follows the struct tags: \<open>Kind\<close> is written under
  \<open>kind\<close>, \<open>Value\<close> under \<open>value\<close>, and \<open>RoomID\<close>, tagged \<open>json:"-"\<close>, is left out.
  The two payload structs are written under \<open>id\<close> and \<open>message\<close>, and under \<open>id\<close> and
  \<open>count\<close>; \<open>Count\<close> is an \<open>int64\<close>, written as its signed value.
\<close>

fun marshal_payload :: "payload \<Rightarrow> json" where
  "marshal_payload (MessageMessageCreated i m) =
     JObject [(''id'', JString i), (''message'', JString m)]"
| "marshal_payload (MessageMessageReactionCount i n) =
     JObject [(''id'', JString i), (''count'', JNumber (sint n))]"

definition marshal_Message :: "Message \<Rightarrow> json" where
  "marshal_Message msg =
     JObject [(''kind'', JString (Kind msg)), (''value'', marshal_payload (Value msg))]"

text \<open>
  A Go slice is \<open>None\<close> when it is nil and \<open>Some xs\<close> otherwise; \<open>json.Marshal\<close> writes
  a nil slice as \<open>null\<close> and any other slice as an array.
\<close>

fun marshal_slice :: "('a \<Rightarrow> json) \<Rightarrow> 'a list option \<Rightarrow> json" where
  "marshal_slice enc None = JNull"
| "marshal_slice enc (Some xs) = JArray (map enc xs)"

subsection \<open>Effects\<close>

text \<open>
  What a handler does to the outside, one constructor per call of the source:
  \<open>http.Error(w, msg, code)\<close>, \<open>w.Header().Set\<close>, \<open>w.Write\<close> (of a marshalled document),
  the three \<open>slog\<close> calls, \<open>conn.WriteJSON(msg)\<close> (an attempted send, with the document it
  writes), a call of a \<open>CancelFunc\<close>, \<open>go h.notifyClients(msg)\<close> and the deferred
  \<open>c.Close()\<close>.
\<close>

datatype effect =
    HttpError string nat
  | SetHeader string string
  | Write json
  | SlogError string err
  | SlogWarn string err
  | SlogInfo string string string
  | WriteJSON conn json
  | Cancel cancel
  | Go Message
  | Close conn

subsection \<open>Requests and collaborators\<close>

text \<open>
  A request, as the handlers read it: the two URL parameters, \<open>r.RemoteAddr\<close>, the outcome
  of decoding the body into the handler's \<open>_body\<close> struct (the decoded field, or the
  decoder's error), and the outcome of \<open>h.upgrader.Upgrade(w, r, nil)\<close> on this request.
\<close>

record request =
  room_id :: string
  message_id :: string
  RemoteAddr :: string
  Body :: "err + string"
  Upgrade :: "err + conn"

text \<open>
  The collaborators whose code is outside the package, taken as parameters: \<open>uuid.Parse\<close>
  and \<open>UUID.String\<close>, the queries of \<open>pgstore.Queries\<close> (each returns an error or a value),
  and the JSON encodings of the row types \<open>pgstore.Room\<close> and \<open>pgstore.Message\<close>.
\<close>

record ('room, 'message) Queries =
  uuid_Parse :: "string \<Rightarrow> uuid option"
  uuid_String :: "uuid \<Rightarrow> string"
  GetRoom :: "uuid \<Rightarrow> err + 'room"
  GetRooms :: "err + 'room list option"
  GetRoomMessages :: "uuid \<Rightarrow> err + 'message list option"
  InsertRoom :: "string \<Rightarrow> err + uuid"
  InsertMessage :: "uuid \<Rightarrow> string \<Rightarrow> err + uuid"
  GetMessage :: "uuid \<Rightarrow> err + 'message"
  ReactToMessage :: "uuid \<Rightarrow> err + 64 word"
  marshal_Room :: "'room \<Rightarrow> json"
  marshal_pgMessage :: "'message \<Rightarrow> json"

subsection \<open>The helper file: \<open>readRoom\<close> and \<open>sendJSON\<close>\<close>

definition readRoom ::
  "('room, 'message) Queries \<Rightarrow> request \<Rightarrow> effect list \<times> ('room \<times> string \<times> uuid) option" where
  "readRoom q r =
     (let rawRoomID = room_id r in
      case uuid_Parse q rawRoomID of
        None \<Rightarrow> ([HttpError MsgInvalidRoomID StatusBadRequest], None)
      | Some roomID \<Rightarrow>
          (case GetRoom q roomID of
             Inl e \<Rightarrow>
               if e = ErrNoRows then ([HttpError MsgRoomNotFound StatusBadRequest], None)
               else ([SlogError MsgFailedToGetRoom e,
                      HttpError MsgSomethingWentWrong StatusInternalServerError], None)
           | Inr room \<Rightarrow> ([], Some (room, rawRoomID, roomID))))"

definition sendJSON :: "json \<Rightarrow> effect list" where
  "sendJSON data = [SetHeader ''Content-Type'' ''application/json'', Write data]"

subsection \<open>The handlers that do not touch the registry\<close>

definition handleGetRooms :: "('room, 'message) Queries \<Rightarrow> request \<Rightarrow> effect list" where
  "handleGetRooms q r =
     (case GetRooms q of
        Inl e \<Rightarrow> [SlogError MsgFailedToGetRooms e,
                  HttpError MsgSomethingWentWrong StatusInternalServerError]
      | Inr rooms \<Rightarrow>
          sendJSON (marshal_slice (marshal_Room q) (if rooms = None then Some [] else rooms)))"

definition handleGetRoom :: "('room, 'message) Queries \<Rightarrow> request \<Rightarrow> effect list" where
  "handleGetRoom q r =
     (case readRoom q r of
        (es, None) \<Rightarrow> es
      | (es, Some (room, _, _)) \<Rightarrow> es @ sendJSON (marshal_Room q room))"

definition handleCreateRoom :: "('room, 'message) Queries \<Rightarrow> request \<Rightarrow> effect list" where
  "handleCreateRoom q r =
     (case Body r of
        Inl e \<Rightarrow> [HttpError MsgInvalidJSON StatusBadRequest]
      | Inr theme \<Rightarrow>
          (case InsertRoom q theme of
             Inl e \<Rightarrow> [SlogError MsgFailedToInsertRoom e,
                       HttpError MsgSomethingWentWrong StatusInternalServerError]
           | Inr roomID \<Rightarrow> sendJSON (JObject [(''id'', JString (uuid_String q roomID))])))"

definition handleGetRoomMessages :: "('room, 'message) Queries \<Rightarrow> request \<Rightarrow> effect list" where
  "handleGetRoomMessages q r =
     (case readRoom q r of
        (es, None) \<Rightarrow> es
      | (es, Some (_, _, roomID)) \<Rightarrow>
          (case GetRoomMessages q roomID of
             Inl e \<Rightarrow> es @ [SlogError MsgFailedToGetRoomMessages e,
                            HttpError MsgSomethingWentWrong StatusInternalServerError]
           | Inr messages \<Rightarrow>
               es @ sendJSON (marshal_slice (marshal_pgMessage q)
                                (if messages = None then Some [] else messages))))"

definition handleCreateRoomMessage :: "('room, 'message) Queries \<Rightarrow> request \<Rightarrow> effect list" where
  "handleCreateRoomMessage q r =
     (case readRoom q r of
        (es, None) \<Rightarrow> es
      | (es, Some (_, rawRoomID, roomID)) \<Rightarrow>
          (case Body r of
             Inl e \<Rightarrow> es @ [HttpError MsgInvalidJSON StatusBadRequest]
           | Inr message \<Rightarrow>
               (case InsertMessage q roomID message of
                  Inl e \<Rightarrow> es @ [SlogError MsgFailedToInsertMessage e,
                                 HttpError MsgSomethingWentWrong StatusInternalServerError]
                | Inr messageID \<Rightarrow>
                    es @ sendJSON (JObject [(''id'', JString (uuid_String q messageID))])
                       @ [Go \<lparr>Kind = MessageKindMessageCreated,
                              Value = MessageMessageCreated (uuid_String q messageID) message,
                              RoomID = rawRoomID\<rparr>])))"

definition handleGetRoomMessage :: "('room, 'message) Queries \<Rightarrow> request \<Rightarrow> effect list" where
  "handleGetRoomMessage q r =
     (case readRoom q r of
        (es, None) \<Rightarrow> es
      | (es, Some _) \<Rightarrow>
          (let rawMessageID = message_id r in
           case uuid_Parse q rawMessageID of
             None \<Rightarrow> es @ [HttpError MsgInvalidMessageID StatusBadRequest]
           | Some messageID \<Rightarrow>
               (case GetMessage q messageID of
                  Inl e \<Rightarrow>
                    if e = ErrNoRows then es @ [HttpError MsgMessageNotFound StatusNotFound]
                    else es @ [SlogError MsgFailedToGetMessage e,
                               HttpError MsgSomethingWentWrong StatusInternalServerError]
                | Inr message \<Rightarrow> es @ sendJSON (marshal_pgMessage q message))))"

definition handleReactToMessage :: "('room, 'message) Queries \<Rightarrow> request \<Rightarrow> effect list" where
  "handleReactToMessage q r =
     (case readRoom q r of
        (es, None) \<Rightarrow> es
      | (es, Some (_, rawRoomID, _)) \<Rightarrow>
          (let rawMessageID = message_id r in
           case uuid_Parse q rawMessageID of
             None \<Rightarrow> es @ [HttpError MsgInvalidMessageID StatusBadRequest]
           | Some messageID \<Rightarrow>
               (case ReactToMessage q messageID of
                  Inl e \<Rightarrow> es @ [SlogError MsgFailedToReactToMessage e,
                                 HttpError MsgSomethingWentWrong StatusInternalServerError]
                | Inr count \<Rightarrow>
                    es @ sendJSON (JObject [(''count'', JNumber (sint count))])
                       @ [Go \<lparr>Kind = MessageKindMessageRactionIncreased,
                              Value = MessageMessageReactionCount rawMessageID count,
                              RoomID = rawRoomID\<rparr>])))"

text \<open>The two handlers whose body is empty.\<close>

definition handleRemoveReactFromMessage ::
  "('room, 'message) Queries \<Rightarrow> request \<Rightarrow> effect list" where
  "handleRemoveReactFromMessage q r = []"

definition handleMarkMessageAsAnswered ::
  "('room, 'message) Queries \<Rightarrow> request \<Rightarrow> effect list" where
  "handleMarkMessageAsAnswered q r = []"

subsection \<open>The registry\<close>

text \<open>
  \<open>lifecycle\<close> holds the locals of one run of \<open>handleSubscribe\<close> that is blocked in
  \<open><-ctx.Done()\<close>. The server state is the field \<open>subscribers\<close> of \<open>apiHandler\<close>, the
  contexts whose \<open>Done\<close> channel is closed, and the blocked runs of \<open>handleSubscribe\<close>.

  The inner Go map of a room is an association list: its keys are the connections, and
  its order is the order in which a \<open>range\<close> over the map visits the entries (Go leaves
  that order open; the theorems below hold for every list). All code that reads or
  writes \<open>subscribers\<close> runs between \<open>h.mu.Lock()\<close> and \<open>h.mu.Unlock()\<close>, so each such
  section is one function on the state.
\<close>

record lifecycle =
  lc_room :: string
  lc_conn :: conn
  lc_cancel :: cancel

record server =
  subscribers :: "string \<rightharpoonup> (conn \<times> cancel) list"
  cancelled :: "cancel set"
  waiting :: "lifecycle list"

definition NewHandler :: server where
  "NewHandler = \<lparr>subscribers = Map.empty, cancelled = {}, waiting = []\<rparr>"

text \<open>The connections in the set of a room; an absent set has none.\<close>

definition room_conns :: "server \<Rightarrow> string \<Rightarrow> conn set" where
  "room_conns h room =
     (case subscribers h room of None \<Rightarrow> {} | Some subs \<Rightarrow> fst ` set subs)"

text \<open>
  The first locked section of \<open>handleSubscribe\<close>: the set of the room is made when it is
  missing, then \<open>h.subscribers[rawRoomID][c] = cancel\<close>.
\<close>

definition register :: "string \<Rightarrow> conn \<Rightarrow> cancel \<Rightarrow> server \<Rightarrow> server" where
  "register rawRoomID c k h =
     (let subs = (case subscribers h rawRoomID of None \<Rightarrow> [] | Some m \<Rightarrow> m)
      in h\<lparr>subscribers := (subscribers h)(rawRoomID \<mapsto> AList.update c k subs)\<rparr>)"

text \<open>
  The second locked section: \<open>delete(h.subscribers[rawRoomID], c)\<close>. Reading an absent
  room gives the nil map, and \<open>delete\<close> on the nil map does nothing.
\<close>

definition unregister :: "string \<Rightarrow> conn \<Rightarrow> server \<Rightarrow> server" where
  "unregister rawRoomID c h =
     (case subscribers h rawRoomID of
        None \<Rightarrow> h
      | Some subs \<Rightarrow> h\<lparr>subscribers := (subscribers h)(rawRoomID \<mapsto> AList.delete c subs)\<rparr>)"

subsection \<open>\<open>notifyClients\<close>\<close>

text \<open>
  The loop \<open>for conn, cancel := range subcribers\<close>. \<open>wr conn\<close> is what
  \<open>conn.WriteJSON(msg)\<close> returns on this connection: \<open>None\<close> for nil, \<open>Some e\<close> for an
  error. Calling \<open>cancel\<close> closes the \<open>Done\<close> channel of its context.
\<close>

fun notify_range ::
  "(conn \<Rightarrow> err option) \<Rightarrow> Message \<Rightarrow> (conn \<times> cancel) list \<Rightarrow> server \<Rightarrow> effect list \<times> server" where
  "notify_range wr msg [] h = ([], h)"
| "notify_range wr msg ((conn, cancel) # rest) h =
     (case wr conn of
        None \<Rightarrow>
          (case notify_range wr msg rest h of
             (es, h') \<Rightarrow> (WriteJSON conn (marshal_Message msg) # es, h'))
      | Some e \<Rightarrow>
          (case notify_range wr msg rest (h\<lparr>cancelled := insert cancel (cancelled h)\<rparr>) of
             (es, h') \<Rightarrow>
               (WriteJSON conn (marshal_Message msg) # SlogError MsgFailedToSendMessage e
                  # Cancel cancel # es, h')))"

definition notifyClients ::
  "(conn \<Rightarrow> err option) \<Rightarrow> Message \<Rightarrow> server \<Rightarrow> effect list \<times> server" where
  "notifyClients wr msg h =
     (case subscribers h (RoomID msg) of
        None \<Rightarrow> ([], h)
      | Some subcribers \<Rightarrow>
          if length subcribers = 0 then ([], h) else notify_range wr msg subcribers h)"

text \<open>The connections a list of effects attempts a send to, and the contexts it cancels.\<close>

fun writes :: "effect list \<Rightarrow> conn list" where
  "writes [] = []"
| "writes (WriteJSON c j # es) = c # writes es"
| "writes (e # es) = writes es"

fun cancels :: "effect list \<Rightarrow> cancel list" where
  "cancels [] = []"
| "cancels (Cancel k # es) = k # cancels es"
| "cancels (e # es) = cancels es"

subsection \<open>\<open>handleSubscribe\<close>\<close>

text \<open>
  \<open>handleSubscribe\<close> up to \<open><-ctx.Done()\<close>. \<open>k\<close> is the context that
  \<open>context.WithCancel(r.Context())\<close> makes. When the connection is accepted the run
  registers itself and blocks.
\<close>

definition handleSubscribe ::
  "('room, 'message) Queries \<Rightarrow> request \<Rightarrow> cancel \<Rightarrow> server \<Rightarrow> effect list \<times> server" where
  "handleSubscribe q r k h =
     (case readRoom q r of
        (es, None) \<Rightarrow> (es, h)
      | (es, Some (_, rawRoomID, _)) \<Rightarrow>
          (case Upgrade r of
             Inl e \<Rightarrow>
               (es @ [SlogWarn MsgFailedToUpgradeConnection e,
                      HttpError MsgFailedToUpgradeConnection StatusBadRequest], h)
           | Inr c \<Rightarrow>
               (es @ [SlogInfo MsgNewClientConnected rawRoomID (RemoteAddr r)],
                (register rawRoomID c k h)
                  \<lparr>waiting := \<lparr>lc_room = rawRoomID, lc_conn = c, lc_cancel = k\<rparr> # waiting h\<rparr>)))"

text \<open>
  \<open>handleSubscribe\<close> from \<open><-ctx.Done()\<close> on, for the blocked run \<open>l\<close>: the connection is
  deleted from the set of the room the run registered it in, then the deferred
  \<open>c.Close()\<close> runs.
\<close>

definition handleSubscribe_done :: "lifecycle \<Rightarrow> server \<Rightarrow> effect list \<times> server" where
  "handleSubscribe_done l h =
     ([Close (lc_conn l)],
      (unregister (lc_room l) (lc_conn l) h)\<lparr>waiting := filter (\<lambda>l'. l' \<noteq> l) (waiting h)\<rparr>)"

subsection \<open>The routes\<close>

text \<open>
  The routes that \<open>NewHandler\<close> registers, by method and path, and \<open>ServeHTTP\<close>, which
  hands a request to the handler of its route (for \<open>handleSubscribe\<close>, up to the point
  where it blocks).
\<close>

datatype route =
    GET_subscribe
  | GET_rooms
  | POST_rooms
  | GET_room
  | GET_messages
  | POST_messages
  | GET_message
  | PATCH_react
  | DELETE_react
  | PATCH_answer

fun ServeHTTP ::
  "route \<Rightarrow> ('room, 'message) Queries \<Rightarrow> request \<Rightarrow> cancel \<Rightarrow> server \<Rightarrow> effect list \<times> server" where
  "ServeHTTP GET_subscribe q r k h = handleSubscribe q r k h"
| "ServeHTTP GET_rooms q r k h = (handleGetRooms q r, h)"
| "ServeHTTP POST_rooms q r k h = (handleCreateRoom q r, h)"
| "ServeHTTP GET_room q r k h = (handleGetRoom q r, h)"
| "ServeHTTP GET_messages q r k h = (handleGetRoomMessages q r, h)"
| "ServeHTTP POST_messages q r k h = (handleCreateRoomMessage q r, h)"
| "ServeHTTP GET_message q r k h = (handleGetRoomMessage q r, h)"
| "ServeHTTP PATCH_react q r k h = (handleReactToMessage q r, h)"
| "ServeHTTP DELETE_react q r k h = (handleRemoveReactFromMessage q r, h)"
| "ServeHTTP PATCH_answer q r k h = (handleMarkMessageAsAnswered q r, h)"

subsection \<open>Runs of the server\<close>

text \<open>
  The locked sections of concurrent goroutines run one after the other, so a run of the
  server is a list of actions: a subscribe request that runs up to its blocking point, the
  end of a request's parent context, a blocked run that resumes, and a dispatch. An
  action that cannot happen gives \<open>None\<close>: \<open>Upgrade\<close> returns a connection that no
  blocked run holds (a new allocation differs from every connection still in use; the
  address of a closed one may come back), \<open>WithCancel\<close> a context that no blocked run
  has, and a run resumes only when it is blocked and its context is done. A context is
  done once its \<open>cancel\<close> was called or its parent, the request's context, has ended.
\<close>

datatype ('room, 'message) action =
    Subscribe "('room, 'message) Queries" request cancel
  | ParentDone cancel
  | Resume lifecycle
  | Notify "conn \<Rightarrow> err option" Message

definition fresh :: "request \<Rightarrow> cancel \<Rightarrow> server \<Rightarrow> bool" where
  "fresh r k h =
     (k \<notin> lc_cancel ` set (waiting h) \<and>
      (case Upgrade r of Inl e \<Rightarrow> True | Inr c \<Rightarrow> c \<notin> lc_conn ` set (waiting h)))"

fun step :: "('room, 'message) action \<Rightarrow> server \<Rightarrow> (effect list \<times> server) option" where
  "step (Subscribe q r k) h = (if fresh r k h then Some (handleSubscribe q r k h) else None)"
| "step (ParentDone k) h = Some ([], h\<lparr>cancelled := insert k (cancelled h)\<rparr>)"
| "step (Resume l) h =
     (if l \<in> set (waiting h) \<and> lc_cancel l \<in> cancelled h
      then Some (handleSubscribe_done l h) else None)"
| "step (Notify wr msg) h = Some (notifyClients wr msg h)"

fun exec :: "('room, 'message) action list \<Rightarrow> server \<Rightarrow> (effect list \<times> server) option" where
  "exec [] h = Some ([], h)"
| "exec (a # as) h =
     (case step a h of
        None \<Rightarrow> None
      | Some (es, h') \<Rightarrow>
          (case exec as h' of None \<Rightarrow> None | Some (es', h'') \<Rightarrow> Some (es @ es', h'')))"

subsection \<open>The invariant of the registry\<close>

text \<open>
  Every connection in a room's set belongs to a blocked run of \<open>handleSubscribe\<close> for that
  room, and no two blocked runs hold the same connection.
\<close>

definition registry_inv :: "server \<Rightarrow> bool" where
  "registry_inv h \<longleftrightarrow>
     distinct (map lc_conn (waiting h)) \<and>
     (\<forall>room c. c \<in> room_conns h room \<longrightarrow>
        (\<exists>l \<in> set (waiting h). lc_room l = room \<and> lc_conn l = c))"

text \<open>
  Every set of the registry holds a connection once, every entry of a set is the
  connection and the \<open>cancel\<close> of a blocked run for that room, and no two blocked runs
  have the same context.
\<close>

definition registry_wf :: "server \<Rightarrow> bool" where
  "registry_wf h \<longleftrightarrow>
     distinct (map lc_cancel (waiting h)) \<and>
     (\<forall>room subs. subscribers h room = Some subs \<longrightarrow>
        distinct (map fst subs) \<and>
        (\<forall>c k. (c, k) \<in> set subs \<longrightarrow>
           \<lparr>lc_room = room, lc_conn = c, lc_cancel = k\<rparr> \<in> set (waiting h)))"

subsection \<open>Example inputs\<close>

text \<open>
  A store with the rooms \<open>r1\<close> and \<open>r2\<close>, a subscribe request, an event, and a server
  with two subscribers in room \<open>r1\<close>.
\<close>

definition example_Queries :: "(unit, unit) Queries" where
  "example_Queries =
     \<lparr>uuid_Parse = [''r1'' \<mapsto> 1, ''r2'' \<mapsto> 2], uuid_String = (\<lambda>u. ''u''),
      GetRoom = (\<lambda>u. Inr ()), GetRooms = Inr None,
      GetRoomMessages = (\<lambda>u. Inr None), InsertRoom = (\<lambda>t. Inr 4),
      InsertMessage = (\<lambda>u m. Inr 3),
      GetMessage = (\<lambda>u. Inr ()), ReactToMessage = (\<lambda>u. Inr 1),
      marshal_Room = (\<lambda>x. JNull), marshal_pgMessage = (\<lambda>x. JNull)\<rparr>"

definition example_request :: "string \<Rightarrow> err + conn \<Rightarrow> request" where
  "example_request room up =
     \<lparr>room_id = room, message_id = ''m1'', RemoteAddr = ''10.0.0.1'', Body = Inr ''hi'',
      Upgrade = up\<rparr>"

definition example_event :: Message where
  "example_event =
     \<lparr>Kind = MessageKindMessageCreated, Value = MessageMessageCreated ''m1'' ''hi'',
      RoomID = ''r1''\<rparr>"

definition two_subscribers :: server where
  "two_subscribers =
     \<lparr>subscribers = [''r1'' \<mapsto> [(1, 10), (2, 20)]], cancelled = {},
      waiting = [\<lparr>lc_room = ''r1'', lc_conn = 2, lc_cancel = 20\<rparr>,
                 \<lparr>lc_room = ''r1'', lc_conn = 1, lc_cancel = 10\<rparr>]\<rparr>"

section \<open>Properties\<close>

subsection \<open>The dispatch loop\<close>

lemma notify_range_frame:
  "subscribers (snd (notify_range wr msg subs h)) = subscribers h \<and>
   waiting (snd (notify_range wr msg subs h)) = waiting h"
  by (induction subs arbitrary: h) (auto simp: case_prod_beta split: option.splits)

lemma writes_notify_range:
  "writes (fst (notify_range wr msg subs h)) = map fst subs"
  by (induction subs arbitrary: h) (auto simp: case_prod_beta split: option.splits)

lemma cancels_notify_range:
  "cancels (fst (notify_range wr msg subs h)) = map snd (filter (\<lambda>(c, k). wr c \<noteq> None) subs)"
  by (induction subs arbitrary: h) (auto simp: case_prod_beta split: option.splits)

lemma cancelled_notify_range:
  "cancelled (snd (notify_range wr msg subs h)) =
   cancelled h \<union> set (cancels (fst (notify_range wr msg subs h)))"
  by (induction subs arbitrary: h) (auto simp: case_prod_beta split: option.splits)

lemma WriteJSON_notify_range:
  "WriteJSON c j \<in> set (fst (notify_range wr msg subs h)) \<Longrightarrow> j = marshal_Message msg"
  by (induction subs arbitrary: h) (auto simp: case_prod_beta split: option.splits)

lemma notifyClients_range:
  "subscribers h (RoomID msg) = Some subs \<Longrightarrow>
   notifyClients wr msg h = notify_range wr msg subs h"
  by (cases subs) (auto simp: notifyClients_def)

lemma notifyClients_frame:
  "subscribers (snd (notifyClients wr msg h)) = subscribers h \<and>
   waiting (snd (notifyClients wr msg h)) = waiting h"
  by (simp add: notifyClients_def notify_range_frame split: option.splits)

lemma count_list_distinct:
  "distinct xs \<Longrightarrow> x \<in> set xs \<Longrightarrow> count_list xs x = 1"
  by (induction xs) (auto simp: count_list_0_iff)

text \<open>
  C1. In a room whose set holds the subscribers \<open>subs\<close> (a Go map holds each key once),
  \<open>notifyClients\<close> attempts a send to exactly the connections of \<open>subs\<close>: as many sends as
  subscribers, one to each. This holds whatever the sends return (\<open>wr\<close> is arbitrary), so
  a failed send never stops the sends to the others.
\<close>

theorem notifyClients_sends_to_each_once:
  assumes "subscribers h (RoomID msg) = Some subs" and "distinct (map fst subs)"
  shows "writes (fst (notifyClients wr msg h)) = map fst subs \<and>
         length (writes (fst (notifyClients wr msg h))) = length subs \<and>
         (\<forall>c \<in> fst ` set subs. count_list (writes (fst (notifyClients wr msg h))) c = 1)"
  using assms
  by (simp add: notifyClients_range writes_notify_range count_list_distinct)

theorem notifyClients_sends_to_each_once_witness:
  "subscribers two_subscribers (RoomID example_event) = Some [(1, 10), (2, 20)] \<and>
   distinct (map fst [(1 :: conn, 10 :: cancel), (2, 20)]) \<and>
   writes (fst (notifyClients [1 \<mapsto> Err ''broken pipe''] example_event two_subscribers)) = [1, 2] \<and>
   count_list
     (writes (fst (notifyClients [1 \<mapsto> Err ''broken pipe''] example_event two_subscribers))) 1 = 1 \<and>
   count_list
     (writes (fst (notifyClients [1 \<mapsto> Err ''broken pipe''] example_event two_subscribers))) 2 = 1"
  using notifyClients_sends_to_each_once
    [of two_subscribers example_event "[(1, 10), (2, 20)]" "[1 \<mapsto> Err ''broken pipe'']"]
  by (simp add: two_subscribers_def example_event_def)

text \<open>
  C2, as the spec states it, fails: \<open>notifyClients\<close> keeps no record of the contexts it has
  cancelled and leaves the failing subscriber in the registry, so a second dispatch that
  runs before the blocked \<open>handleSubscribe\<close> has resumed sends to it again and, when that
  send fails too, calls its \<open>cancel\<close> a second time. In the run below a client subscribes to
  room \<open>r1\<close> with connection 5 and context 7, every write to connection 5 fails, and two
  events are dispatched: the context 7 is cancelled twice.
\<close>

theorem notifyClients_cancels_twice_counterexample:
  "map_option (cancels \<circ> fst)
     (exec
        [Subscribe
           \<lparr>uuid_Parse = [''r1'' \<mapsto> 1], uuid_String = (\<lambda>u. ''u''),
            GetRoom = (\<lambda>u. Inr ()), GetRooms = Inr None,
            GetRoomMessages = (\<lambda>u. Inr None), InsertRoom = (\<lambda>t. Inr 3),
            InsertMessage = (\<lambda>u m. Inr 2),
            GetMessage = (\<lambda>u. Inr ()), ReactToMessage = (\<lambda>u. Inr 1),
            marshal_Room = (\<lambda>x. JNull), marshal_pgMessage = (\<lambda>x. JNull)\<rparr>
           \<lparr>room_id = ''r1'', message_id = ''m1'', RemoteAddr = ''10.0.0.1'',
            Body = Inr ''hi'', Upgrade = Inr 5\<rparr> 7,
         Notify [5 \<mapsto> Err ''broken pipe'']
           \<lparr>Kind = MessageKindMessageCreated, Value = MessageMessageCreated ''m1'' ''hi'',
            RoomID = ''r1''\<rparr>,
         Notify [5 \<mapsto> Err ''broken pipe'']
           \<lparr>Kind = MessageKindMessageCreated, Value = MessageMessageCreated ''m2'' ''ho'',
            RoomID = ''r1''\<rparr>]
        NewHandler)
   = Some [7, 7]"
  by (simp add: NewHandler_def fresh_def handleSubscribe_def readRoom_def register_def
      notifyClients_def)

text \<open>
  C2, amended. One dispatch calls the \<open>cancel\<close> of every subscriber whose send fails exactly
  once and of no other subscriber: the calls are the \<open>cancel\<close>s of the failing entries, in
  the order of the loop, so when the subscribers' contexts are distinct each failing one
  is cancelled once and each other one not at all. The cancelled contexts become done,
  and the registry is left as it was, so a later dispatch that finds the subscriber
  still registered treats it in the same way again.
\<close>

theorem notifyClients_cancels_each_failed_once:
  assumes "subscribers h (RoomID msg) = Some subs"
  shows "cancels (fst (notifyClients wr msg h)) =
           map snd (filter (\<lambda>(c, k). wr c \<noteq> None) subs) \<and>
         cancelled (snd (notifyClients wr msg h)) =
           cancelled h \<union> set (cancels (fst (notifyClients wr msg h))) \<and>
         subscribers (snd (notifyClients wr msg h)) = subscribers h \<and>
         (distinct (map snd subs) \<longrightarrow>
            (\<forall>(c, k) \<in> set subs.
               count_list (cancels (fst (notifyClients wr msg h))) k =
                 (if wr c = None then 0 else 1)))"
proof -
  have eq: "notifyClients wr msg h = notify_range wr msg subs h"
    using assms by (rule notifyClients_range)
  have c: "cancels (fst (notifyClients wr msg h)) =
      map snd (filter (\<lambda>(c, k). wr c \<noteq> None) subs)"
    by (simp only: eq cancels_notify_range)
  have d: "cancelled (snd (notifyClients wr msg h)) =
      cancelled h \<union> set (cancels (fst (notifyClients wr msg h)))"
    by (simp only: eq cancelled_notify_range)
  have s: "subscribers (snd (notifyClients wr msg h)) = subscribers h"
    by (simp only: eq notify_range_frame)
  have n: "count_list (cancels (fst (notifyClients wr msg h))) k = (if wr c = None then 0 else 1)"
    if dist: "distinct (map snd subs)" and mem: "(c, k) \<in> set subs" for c k
  proof (cases "wr c")
    case None
    have "k \<notin> set (map snd (filter (\<lambda>(c, k). wr c \<noteq> None) subs))"
    proof
      assume "k \<in> set (map snd (filter (\<lambda>(c, k). wr c \<noteq> None) subs))"
      then obtain c' where m': "(c', k) \<in> set subs" and f: "wr c' \<noteq> None"
        by auto
      from dist have inj: "inj_on snd (set subs)" by (simp add: distinct_map)
      have "c' = c" using inj_onD [OF inj, of "(c', k)" "(c, k)"] mem m' by simp
      with f None show False by simp
    qed
    with None show ?thesis by (simp add: c count_list_0_iff)
  next
    case (Some e)
    from dist have "distinct (map snd (filter (\<lambda>(c, k). wr c \<noteq> None) subs))"
      by (rule distinct_map_filter)
    moreover from mem Some have "k \<in> set (map snd (filter (\<lambda>(c, k). wr c \<noteq> None) subs))"
      by force
    ultimately show ?thesis using Some by (simp add: c count_list_distinct)
  qed
  from c d s n show ?thesis by blast
qed

theorem notifyClients_cancels_each_failed_once_witness:
  "subscribers two_subscribers (RoomID example_event) = Some [(1, 10), (2, 20)] \<and>
   distinct (map snd [(1 :: conn, 10 :: cancel), (2, 20)]) \<and>
   cancels (fst (notifyClients [1 \<mapsto> Err ''broken pipe''] example_event two_subscribers)) = [10] \<and>
   cancelled (snd (notifyClients [1 \<mapsto> Err ''broken pipe''] example_event two_subscribers)) = {10} \<and>
   count_list
     (cancels (fst (notifyClients [1 \<mapsto> Err ''broken pipe''] example_event two_subscribers))) 10 = 1 \<and>
   count_list
     (cancels (fst (notifyClients [1 \<mapsto> Err ''broken pipe''] example_event two_subscribers))) 20 = 0"
  using notifyClients_cancels_each_failed_once
    [of two_subscribers example_event "[(1, 10), (2, 20)]" "[1 \<mapsto> Err ''broken pipe'']"]
  by (simp add: two_subscribers_def example_event_def)

subsection \<open>Dispatch on a room without subscribers\<close>

text \<open>
  C4. When the set of the event's room is absent from the registry, or present and empty,
  \<open>notifyClients\<close> returns with no effect at all: no send is attempted, nothing is logged
  or cancelled, and the state is the one before. The two cases give the same result.
\<close>

theorem notifyClients_no_subscribers:
  "subscribers h (RoomID msg) = None \<or> subscribers h (RoomID msg) = Some [] \<Longrightarrow>
   notifyClients wr msg h = ([], h) \<and> writes (fst (notifyClients wr msg h)) = []"
  by (auto simp: notifyClients_def)

theorem notifyClients_no_subscribers_witness:
  "subscribers NewHandler (RoomID example_event) = None \<and>
   notifyClients [1 \<mapsto> Err ''broken pipe''] example_event NewHandler = ([], NewHandler) \<and>
   subscribers (NewHandler\<lparr>subscribers := [''r1'' \<mapsto> []]\<rparr>) (RoomID example_event) = Some [] \<and>
   notifyClients [1 \<mapsto> Err ''broken pipe''] example_event
     (NewHandler\<lparr>subscribers := [''r1'' \<mapsto> []]\<rparr>)
     = ([], NewHandler\<lparr>subscribers := [''r1'' \<mapsto> []]\<rparr>)"
proof -
  let ?h = "NewHandler\<lparr>subscribers := [''r1'' \<mapsto> []]\<rparr>"
  have a: "subscribers NewHandler (RoomID example_event) = None"
    by (simp add: NewHandler_def)
  have b: "subscribers ?h (RoomID example_event) = Some []"
    by (simp add: example_event_def)
  from a b
    notifyClients_no_subscribers [of NewHandler example_event "[1 \<mapsto> Err ''broken pipe'']"]
    notifyClients_no_subscribers [of ?h example_event "[1 \<mapsto> Err ''broken pipe'']"]
  show ?thesis by simp
qed

subsection \<open>The registry under subscribe, resume and dispatch\<close>

lemma room_conns_cong:
  "subscribers h' = subscribers h \<Longrightarrow> room_conns h' room = room_conns h room"
  by (simp add: room_conns_def)

lemma room_conns_waiting_update:
  "room_conns (h\<lparr>waiting := w\<rparr>) room = room_conns h room"
  by (simp add: room_conns_def)

lemma room_conns_register:
  "room_conns (register r c k h) room =
     (if room = r then insert c (room_conns h r) else room_conns h room)"
  by (auto simp: room_conns_def register_def Let_def dom_update split: option.splits)

lemma keys_delete: "fst ` set (AList.delete c subs) = fst ` set subs - {c}"
proof -
  have "set (map fst (AList.delete c subs)) = set (map fst subs) - {c}"
    by (simp only: delete_keys set_removeAll)
  then show ?thesis by simp
qed

lemma room_conns_unregister:
  "room_conns (unregister r c h) room =
     (if room = r then room_conns h r - {c} else room_conns h room)"
  by (auto simp: room_conns_def unregister_def keys_delete split: option.splits)

lemma room_conns_handleSubscribe:
  "room_conns h room \<subseteq> room_conns (snd (handleSubscribe q r k h)) room"
  by (auto simp: handleSubscribe_def room_conns_register room_conns_waiting_update
      split: prod.splits option.splits sum.splits)

lemma room_conns_handleSubscribe_done:
  "room_conns (snd (handleSubscribe_done l h)) room =
     (if room = lc_room l then room_conns h room - {lc_conn l} else room_conns h room)"
  by (simp add: handleSubscribe_done_def room_conns_unregister room_conns_waiting_update)

lemma step_removal:
  assumes "step a h = Some (es, h')" and "c \<in> room_conns h room" and "c \<notin> room_conns h' room"
  shows "\<exists>k. a = Resume \<lparr>lc_room = room, lc_conn = c, lc_cancel = k\<rparr> \<and> k \<in> cancelled h"
proof (cases a)
  case (Subscribe q r k)
  with assms(1) have "h' = snd (handleSubscribe q r k h)"
    by (auto split: if_splits)
  with assms(2,3) room_conns_handleSubscribe [of h room q r k] show ?thesis by auto
next
  case (ParentDone k)
  with assms(1) have "subscribers h' = subscribers h" by auto
  then have "room_conns h' room = room_conns h room" by (rule room_conns_cong)
  with assms(2,3) show ?thesis by simp
next
  case (Resume l)
  from assms(1) have r: "l \<in> set (waiting h) \<and> lc_cancel l \<in> cancelled h \<and>
      handleSubscribe_done l h = (es, h')"
    unfolding Resume by (simp split: if_splits)
  then have h': "h' = snd (handleSubscribe_done l h)" and g: "lc_cancel l \<in> cancelled h"
    by simp_all
  from assms(2,3) have "room = lc_room l \<and> c = lc_conn l"
    unfolding h' room_conns_handleSubscribe_done by (auto split: if_splits)
  then have "l = \<lparr>lc_room = room, lc_conn = c, lc_cancel = lc_cancel l\<rparr>" by simp
  with Resume g show ?thesis by metis
next
  case (Notify wr msg)
  with assms(1) have "subscribers h' = subscribers h"
    using notifyClients_frame [of wr msg h] by auto
  then have "room_conns h' room = room_conns h room" by (rule room_conns_cong)
  with assms(2,3) show ?thesis by simp
qed

lemma cancels_notifyClients_failed:
  assumes "k \<in> set (cancels (fst (notifyClients wr msg h)))"
  shows "\<exists>c subs. subscribers h (RoomID msg) = Some subs \<and> (c, k) \<in> set subs \<and> wr c \<noteq> None"
proof (cases "subscribers h (RoomID msg)")
  case None
  with assms show ?thesis by (simp add: notifyClients_def)
next
  case (Some subs)
  with assms have "k \<in> set (map snd (filter (\<lambda>(c, k). wr c \<noteq> None) subs))"
    by (simp only: notifyClients_range cancels_notify_range)
  with Some show ?thesis by auto
qed

text \<open>
  C3. \<open>notifyClients\<close> leaves the registry (and the blocked runs of \<open>handleSubscribe\<close>) as
  they were; the only contexts it cancels are those of subscribers of the event's room
  whose send failed. A connection leaves a room's set only in a step in which the run of
  \<open>handleSubscribe\<close> that registered this connection in this room resumes, and that run
  resumes only after its context is done.
\<close>

theorem notifyClients_keeps_registry:
  "subscribers (snd (notifyClients wr msg h)) = subscribers h \<and>
   waiting (snd (notifyClients wr msg h)) = waiting h \<and>
   (\<forall>k \<in> set (cancels (fst (notifyClients wr msg h))).
      \<exists>c subs. subscribers h (RoomID msg) = Some subs \<and> (c, k) \<in> set subs \<and> wr c \<noteq> None) \<and>
   (\<forall>a es h' c room.
      step a h = Some (es, h') \<longrightarrow> c \<in> room_conns h room \<longrightarrow> c \<notin> room_conns h' room \<longrightarrow>
      (\<exists>k. a = Resume \<lparr>lc_room = room, lc_conn = c, lc_cancel = k\<rparr> \<and> k \<in> cancelled h))"
  using notifyClients_frame [of wr msg h] cancels_notifyClients_failed [of _ wr msg h]
    step_removal [of _ h]
  by blast

theorem notifyClients_keeps_registry_witness:
  "subscribers (snd (notifyClients [1 \<mapsto> Err ''broken pipe''] example_event two_subscribers))
     = subscribers two_subscribers \<and>
   cancels (fst (notifyClients [1 \<mapsto> Err ''broken pipe''] example_event two_subscribers)) = [10] \<and>
   step (Resume \<lparr>lc_room = ''r1'', lc_conn = 1, lc_cancel = 10\<rparr> :: (unit, unit) action)
     (two_subscribers\<lparr>cancelled := {10}\<rparr>)
     = Some ([Close 1],
         \<lparr>subscribers = [''r1'' \<mapsto> [(2, 20)]], cancelled = {10},
          waiting = [\<lparr>lc_room = ''r1'', lc_conn = 2, lc_cancel = 20\<rparr>]\<rparr>) \<and>
   1 \<in> room_conns (two_subscribers\<lparr>cancelled := {10}\<rparr>) ''r1'' \<and>
   1 \<notin> room_conns
     \<lparr>subscribers = [''r1'' \<mapsto> [(2, 20)]], cancelled = {10},
      waiting = [\<lparr>lc_room = ''r1'', lc_conn = 2, lc_cancel = 20\<rparr>]\<rparr> ''r1'' \<and>
   (\<exists>k. (Resume \<lparr>lc_room = ''r1'', lc_conn = 1, lc_cancel = 10\<rparr> :: (unit, unit) action)
          = Resume \<lparr>lc_room = ''r1'', lc_conn = 1, lc_cancel = k\<rparr> \<and>
        k \<in> cancelled (two_subscribers\<lparr>cancelled := {10}\<rparr>))"
proof -
  let ?h = "two_subscribers\<lparr>cancelled := {10}\<rparr>"
  let ?h' = "\<lparr>subscribers = [''r1'' \<mapsto> [(2 :: conn, 20 :: cancel)]], cancelled = {10},
      waiting = [\<lparr>lc_room = ''r1'', lc_conn = 2, lc_cancel = 20\<rparr>]\<rparr>"
  let ?a = "Resume \<lparr>lc_room = ''r1'', lc_conn = 1, lc_cancel = 10\<rparr> :: (unit, unit) action"
  have frame: "subscribers
      (snd (notifyClients [1 \<mapsto> Err ''broken pipe''] example_event two_subscribers))
      = subscribers two_subscribers"
    using notifyClients_keeps_registry
      [of "[1 \<mapsto> Err ''broken pipe'']" example_event two_subscribers]
    by blast
  have c: "cancels
      (fst (notifyClients [1 \<mapsto> Err ''broken pipe''] example_event two_subscribers)) = [10]"
    by (simp add: notifyClients_def two_subscribers_def example_event_def)
  have s: "step ?a ?h = Some ([Close 1], ?h')"
    by (simp add: two_subscribers_def handleSubscribe_done_def unregister_def)
  have i: "1 \<in> room_conns ?h ''r1''"
    by (simp add: two_subscribers_def room_conns_def)
  have o: "1 \<notin> room_conns ?h' ''r1''"
    by (simp add: room_conns_def)
  have "\<exists>k. ?a = Resume \<lparr>lc_room = ''r1'', lc_conn = 1, lc_cancel = k\<rparr> \<and> k \<in> cancelled ?h"
    using notifyClients_keeps_registry [of "[1 \<mapsto> Err ''broken pipe'']" example_event ?h] s i o
    by blast
  with frame c s i o show ?thesis by blast
qed

subsection \<open>One room per connection\<close>

lemma registry_inv_NewHandler: "registry_inv NewHandler"
  by (simp add: registry_inv_def NewHandler_def room_conns_def)

lemma registry_inv_handleSubscribe:
  assumes "registry_inv h" and "fresh r k h"
  shows "registry_inv (snd (handleSubscribe q r k h))"
proof (cases "readRoom q r")
  case (Pair es res)
  show ?thesis
  proof (cases res)
    case None
    with Pair assms(1) show ?thesis by (simp add: handleSubscribe_def)
  next
    case (Some t)
    obtain room rawRoomID roomID where t: "t = (room, rawRoomID, roomID)" by (cases t)
    show ?thesis
    proof (cases "Upgrade r")
      case (Inl e)
      with Pair Some t assms(1) show ?thesis by (simp add: handleSubscribe_def)
    next
      case (Inr c)
      with assms(2) have fr: "c \<notin> lc_conn ` set (waiting h)" by (simp add: fresh_def)
      have h': "snd (handleSubscribe q r k h) =
          (register rawRoomID c k h)
            \<lparr>waiting := \<lparr>lc_room = rawRoomID, lc_conn = c, lc_cancel = k\<rparr> # waiting h\<rparr>"
        using Pair Some t Inr by (simp add: handleSubscribe_def)
      have w: "waiting (register rawRoomID c k h) = waiting h"
        by (simp add: register_def Let_def)
      have rc: "room_conns (snd (handleSubscribe q r k h)) room' =
          (if room' = rawRoomID then insert c (room_conns h rawRoomID) else room_conns h room')"
        for room'
        unfolding h' by (simp add: room_conns_register room_conns_waiting_update)
      from assms(1) fr show ?thesis
        unfolding registry_inv_def rc
        by (auto simp: h' w split: if_splits)
    qed
  qed
qed

lemma registry_inv_handleSubscribe_done:
  assumes "registry_inv h"
  shows "registry_inv (snd (handleSubscribe_done l h))"
proof -
  have w: "waiting (snd (handleSubscribe_done l h)) = filter (\<lambda>l'. l' \<noteq> l) (waiting h)"
    by (simp add: handleSubscribe_done_def)
  have d: "distinct (map lc_conn (filter (\<lambda>l'. l' \<noteq> l) (waiting h)))"
    using assms by (simp add: registry_inv_def distinct_map_filter)
  have "\<exists>l' \<in> set (filter (\<lambda>l'. l' \<noteq> l) (waiting h)). lc_room l' = room \<and> lc_conn l' = c"
    if "c \<in> room_conns (snd (handleSubscribe_done l h)) room" for room c
  proof -
    from that have c: "c \<in> room_conns h room" and ne: "\<not> (room = lc_room l \<and> c = lc_conn l)"
      by (auto simp: room_conns_handleSubscribe_done split: if_splits)
    from assms c obtain l' where l': "l' \<in> set (waiting h)" "lc_room l' = room" "lc_conn l' = c"
      by (auto simp: registry_inv_def)
    with ne have "l' \<noteq> l" by auto
    with l' show ?thesis by auto
  qed
  with d show ?thesis unfolding registry_inv_def w by blast
qed

lemma registry_inv_step:
  assumes "registry_inv h" and "step a h = Some (es, h')"
  shows "registry_inv h'"
proof (cases a)
  case (Subscribe q r k)
  with assms(2) have "fresh r k h" "h' = snd (handleSubscribe q r k h)"
    by (auto split: if_splits)
  with assms(1) show ?thesis by (simp add: registry_inv_handleSubscribe)
next
  case (ParentDone k)
  with assms show ?thesis
    by (auto simp: registry_inv_def room_conns_def)
next
  case (Resume l)
  with assms(2) have "handleSubscribe_done l h = (es, h')" by (simp split: if_splits)
  then have "h' = snd (handleSubscribe_done l h)" by simp
  with assms(1) show ?thesis by (simp add: registry_inv_handleSubscribe_done)
next
  case (Notify wr msg)
  with assms(2) have "subscribers h' = subscribers h" "waiting h' = waiting h"
    using notifyClients_frame [of wr msg h] by auto
  with assms(1) show ?thesis by (simp add: registry_inv_def room_conns_def)
qed

lemma registry_inv_exec:
  "registry_inv h \<Longrightarrow> exec as h = Some (es, h') \<Longrightarrow> registry_inv h'"
proof (induction as arbitrary: h es)
  case Nil
  then show ?case by simp
next
  case (Cons a as)
  from Cons.prems(2) obtain es1 h1 es2 where s: "step a h = Some (es1, h1)"
    and e: "exec as h1 = Some (es2, h')"
    by (auto split: option.splits prod.splits)
  from Cons.prems(1) s have "registry_inv h1" by (rule registry_inv_step)
  then show ?case using e by (rule Cons.IH)
qed

text \<open>
  C5. In every state that the server reaches from \<open>NewHandler\<close> by subscribe requests,
  ends of request contexts, resumed runs of \<open>handleSubscribe\<close> and dispatches, in any
  order and number, a connection is in the set of at most one room.
\<close>

theorem handle_in_at_most_one_room:
  assumes "exec as NewHandler = Some (es, h)"
    and "c \<in> room_conns h room1" and "c \<in> room_conns h room2"
  shows "room1 = room2"
proof -
  have inv: "registry_inv h"
    using registry_inv_NewHandler assms(1) by (rule registry_inv_exec)
  from inv assms(2) obtain l1
    where l1: "l1 \<in> set (waiting h)" "lc_room l1 = room1" "lc_conn l1 = c"
    by (auto simp: registry_inv_def)
  from inv assms(3) obtain l2
    where l2: "l2 \<in> set (waiting h)" "lc_room l2 = room2" "lc_conn l2 = c"
    by (auto simp: registry_inv_def)
  from inv have "inj_on lc_conn (set (waiting h))"
    by (simp add: registry_inv_def distinct_map)
  with l1 l2 have "l1 = l2" by (auto dest: inj_onD)
  with l1 l2 show ?thesis by simp
qed

theorem handle_in_at_most_one_room_witness:
  "exec
     [Subscribe example_Queries (example_request ''r1'' (Inr 1)) 10,
      Subscribe example_Queries (example_request ''r2'' (Inr 2)) 20,
      Notify [1 \<mapsto> Err ''broken pipe''] example_event,
      Resume \<lparr>lc_room = ''r1'', lc_conn = 1, lc_cancel = 10\<rparr>,
      Subscribe example_Queries (example_request ''r2'' (Inr 1)) 30]
     NewHandler
   = Some
       ([SlogInfo MsgNewClientConnected ''r1'' ''10.0.0.1'',
         SlogInfo MsgNewClientConnected ''r2'' ''10.0.0.1'',
         WriteJSON 1 (marshal_Message example_event),
         SlogError MsgFailedToSendMessage (Err ''broken pipe''), Cancel 10,
         Close 1,
         SlogInfo MsgNewClientConnected ''r2'' ''10.0.0.1''],
        \<lparr>subscribers = [''r1'' \<mapsto> [], ''r2'' \<mapsto> [(2, 20), (1, 30)]], cancelled = {10},
         waiting = [\<lparr>lc_room = ''r2'', lc_conn = 1, lc_cancel = 30\<rparr>,
                    \<lparr>lc_room = ''r2'', lc_conn = 2, lc_cancel = 20\<rparr>]\<rparr>) \<and>
   1 \<in> room_conns
     \<lparr>subscribers = [''r1'' \<mapsto> [], ''r2'' \<mapsto> [(2, 20), (1, 30)]], cancelled = {10},
      waiting = [\<lparr>lc_room = ''r2'', lc_conn = 1, lc_cancel = 30\<rparr>,
                 \<lparr>lc_room = ''r2'', lc_conn = 2, lc_cancel = 20\<rparr>]\<rparr> ''r2'' \<and>
   1 \<notin> room_conns
     \<lparr>subscribers = [''r1'' \<mapsto> [], ''r2'' \<mapsto> [(2, 20), (1, 30)]], cancelled = {10},
      waiting = [\<lparr>lc_room = ''r2'', lc_conn = 1, lc_cancel = 30\<rparr>,
                 \<lparr>lc_room = ''r2'', lc_conn = 2, lc_cancel = 20\<rparr>]\<rparr> ''r1''"
proof -
  let ?h = "\<lparr>subscribers = [''r1'' \<mapsto> [], ''r2'' \<mapsto> [(2 :: conn, 20 :: cancel), (1, 30)]],
      cancelled = {10},
      waiting = [\<lparr>lc_room = ''r2'', lc_conn = 1, lc_cancel = 30\<rparr>,
                 \<lparr>lc_room = ''r2'', lc_conn = 2, lc_cancel = 20\<rparr>]\<rparr>"
  let ?es = "[SlogInfo MsgNewClientConnected ''r1'' ''10.0.0.1'',
         SlogInfo MsgNewClientConnected ''r2'' ''10.0.0.1'',
         WriteJSON 1 (marshal_Message example_event),
         SlogError MsgFailedToSendMessage (Err ''broken pipe''), Cancel 10,
         Close 1,
         SlogInfo MsgNewClientConnected ''r2'' ''10.0.0.1'']"
  have e: "exec
     [Subscribe example_Queries (example_request ''r1'' (Inr 1)) 10,
      Subscribe example_Queries (example_request ''r2'' (Inr 2)) 20,
      Notify [1 \<mapsto> Err ''broken pipe''] example_event,
      Resume \<lparr>lc_room = ''r1'', lc_conn = 1, lc_cancel = 10\<rparr>,
      Subscribe example_Queries (example_request ''r2'' (Inr 1)) 30]
     NewHandler = Some (?es, ?h)"
    by (simp add: NewHandler_def fresh_def handleSubscribe_def readRoom_def register_def
        notifyClients_def handleSubscribe_done_def unregister_def example_Queries_def
        example_request_def example_event_def fun_upd_twist)
  have i: "1 \<in> room_conns ?h ''r2''"
    by (simp add: room_conns_def)
  have "1 \<notin> room_conns ?h ''r1''"
    using handle_in_at_most_one_room [OF e, of 1 "''r1''" "''r2''"] i by auto
  with e i show ?thesis by blast
qed

subsection \<open>Removing a connection twice\<close>

text \<open>
  C6. Deleting a connection that is not in the room's set, or deleting from a room that
  has no set, leaves the whole state as it was; deleting the same connection from the
  same room a second time changes nothing more, and after a deletion the connection is
  not in the room's set.
\<close>

theorem unregister_idempotent:
  "(c \<notin> room_conns h room \<longrightarrow> unregister room c h = h) \<and>
   (subscribers h room = None \<longrightarrow> unregister room c h = h) \<and>
   unregister room c (unregister room c h) = unregister room c h \<and>
   c \<notin> room_conns (unregister room c h) room"
proof -
  have a: "unregister room c h = h" if "c \<notin> room_conns h room"
  proof (cases "subscribers h room")
    case None
    then show ?thesis by (simp add: unregister_def)
  next
    case (Some subs)
    with that have "AList.delete c subs = subs" by (simp add: room_conns_def)
    with Some show ?thesis by (simp add: unregister_def map_upd_triv)
  qed
  have b: "unregister room c h = h" if "subscribers h room = None"
    using that by (simp add: unregister_def)
  have d: "c \<notin> room_conns (unregister room c h) room"
    by (simp add: room_conns_unregister)
  have e: "unregister room c (unregister room c h) = unregister room c h"
    by (cases "subscribers h room") (simp_all add: unregister_def delete_idem)
  from a b d e show ?thesis by blast
qed

theorem unregister_idempotent_witness:
  "3 \<notin> room_conns two_subscribers ''r1'' \<and> unregister ''r1'' 3 two_subscribers = two_subscribers \<and>
   subscribers two_subscribers ''r9'' = None \<and>
   unregister ''r9'' 1 two_subscribers = two_subscribers \<and>
   unregister ''r1'' 1 (unregister ''r1'' 1 two_subscribers) = unregister ''r1'' 1 two_subscribers"
proof -
  have n: "3 \<notin> room_conns two_subscribers ''r1''"
    by (simp add: room_conns_def two_subscribers_def)
  have m: "subscribers two_subscribers ''r9'' = None"
    by (simp add: two_subscribers_def)
  from n m unregister_idempotent [of 3 two_subscribers "''r1''"]
    unregister_idempotent [of 1 two_subscribers "''r9''"]
    unregister_idempotent [of 1 two_subscribers "''r1''"]
  show ?thesis by blast
qed

subsection \<open>Resolving the room\<close>

lemma readRoom_cases:
  "(uuid_Parse q (room_id r) = None \<and>
      readRoom q r = ([HttpError MsgInvalidRoomID StatusBadRequest], None)) \<or>
   (\<exists>u. uuid_Parse q (room_id r) = Some u \<and> GetRoom q u = Inl ErrNoRows \<and>
      readRoom q r = ([HttpError MsgRoomNotFound StatusBadRequest], None)) \<or>
   (\<exists>u d. uuid_Parse q (room_id r) = Some u \<and> GetRoom q u = Inl (Err d) \<and>
      readRoom q r =
        ([SlogError MsgFailedToGetRoom (Err d),
          HttpError MsgSomethingWentWrong StatusInternalServerError], None)) \<or>
   (\<exists>u room. uuid_Parse q (room_id r) = Some u \<and> GetRoom q u = Inr room \<and>
      readRoom q r = ([], Some (room, room_id r, u)))"
proof (cases "uuid_Parse q (room_id r)")
  case None
  then show ?thesis by (simp add: readRoom_def)
next
  case (Some u)
  show ?thesis
  proof (cases "GetRoom q u")
    case (Inl e)
    with Some show ?thesis by (cases e) (simp_all add: readRoom_def)
  next
    case (Inr room)
    with Some show ?thesis by (simp add: readRoom_def)
  qed
qed

lemma readRoom_failed_callers:
  assumes "snd (readRoom q r) = None"
  shows "handleSubscribe q r k h = (fst (readRoom q r), h)"
    and "handleGetRoom q r = fst (readRoom q r)"
    and "handleGetRoomMessages q r = fst (readRoom q r)"
    and "handleCreateRoomMessage q r = fst (readRoom q r)"
    and "handleGetRoomMessage q r = fst (readRoom q r)"
    and "handleReactToMessage q r = fst (readRoom q r)"
  using assms
  by (cases "readRoom q r";
      simp add: handleSubscribe_def handleGetRoom_def handleGetRoomMessages_def
        handleCreateRoomMessage_def handleGetRoomMessage_def handleReactToMessage_def)+

lemma readRoom_replies:
  "HttpError m code \<in> set (fst (readRoom q r)) \<Longrightarrow>
   m = MsgInvalidRoomID \<and> code = StatusBadRequest \<or>
   m = MsgRoomNotFound \<and> code = StatusBadRequest \<or>
   m = MsgSomethingWentWrong \<and> code = StatusInternalServerError"
  using readRoom_cases [of q r] by auto

text \<open>
  C9. \<open>readRoom\<close> ends in one of four ways, decided by what \<open>uuid.Parse\<close> and \<open>GetRoom\<close>
  return (the four conditions exclude one another): the identifier does not parse, and
  the reply is \<open>invalid room id\<close> with status 400; the room has no row, and the reply is
  \<open>room not found\<close> with status 400; the query fails otherwise, the error is logged, and
  the reply is \<open>something went wrong\<close> with status 500; or the room is returned with no
  effect. The text sent to the caller is always one of these three constants, whatever
  the error was. When \<open>readRoom\<close> does not return the room, each of the six handlers that
  call it does what \<open>readRoom\<close> did and nothing more.
\<close>

theorem readRoom_outcomes:
  "((uuid_Parse q (room_id r) = None \<and>
       readRoom q r = ([HttpError MsgInvalidRoomID StatusBadRequest], None)) \<or>
    (\<exists>u. uuid_Parse q (room_id r) = Some u \<and> GetRoom q u = Inl ErrNoRows \<and>
       readRoom q r = ([HttpError MsgRoomNotFound StatusBadRequest], None)) \<or>
    (\<exists>u d. uuid_Parse q (room_id r) = Some u \<and> GetRoom q u = Inl (Err d) \<and>
       readRoom q r =
         ([SlogError MsgFailedToGetRoom (Err d),
           HttpError MsgSomethingWentWrong StatusInternalServerError], None)) \<or>
    (\<exists>u room. uuid_Parse q (room_id r) = Some u \<and> GetRoom q u = Inr room \<and>
       readRoom q r = ([], Some (room, room_id r, u)))) \<and>
   (\<forall>m code. HttpError m code \<in> set (fst (readRoom q r)) \<longrightarrow>
      m = MsgInvalidRoomID \<and> code = StatusBadRequest \<or>
      m = MsgRoomNotFound \<and> code = StatusBadRequest \<or>
      m = MsgSomethingWentWrong \<and> code = StatusInternalServerError) \<and>
   (snd (readRoom q r) = None \<longrightarrow>
      handleSubscribe q r k h = (fst (readRoom q r), h) \<and>
      handleGetRoom q r = fst (readRoom q r) \<and>
      handleGetRoomMessages q r = fst (readRoom q r) \<and>
      handleCreateRoomMessage q r = fst (readRoom q r) \<and>
      handleGetRoomMessage q r = fst (readRoom q r) \<and>
      handleReactToMessage q r = fst (readRoom q r))"
  using readRoom_cases [of q r] readRoom_replies [of _ _ q r] readRoom_failed_callers [of q r]
  by blast

theorem readRoom_outcomes_witness:
  "readRoom (example_Queries\<lparr>GetRoom := (\<lambda>u. Inl (Err ''connection refused''))\<rparr>)
     (example_request ''r1'' (Inr 1))
   = ([SlogError MsgFailedToGetRoom (Err ''connection refused''),
       HttpError MsgSomethingWentWrong StatusInternalServerError], None) \<and>
   handleSubscribe (example_Queries\<lparr>GetRoom := (\<lambda>u. Inl (Err ''connection refused''))\<rparr>)
     (example_request ''r1'' (Inr 1)) 10 NewHandler
   = ([SlogError MsgFailedToGetRoom (Err ''connection refused''),
       HttpError MsgSomethingWentWrong StatusInternalServerError], NewHandler) \<and>
   handleCreateRoomMessage (example_Queries\<lparr>GetRoom := (\<lambda>u. Inl (Err ''connection refused''))\<rparr>)
     (example_request ''r1'' (Inr 1))
   = [SlogError MsgFailedToGetRoom (Err ''connection refused''),
      HttpError MsgSomethingWentWrong StatusInternalServerError]"
proof -
  let ?q = "example_Queries\<lparr>GetRoom := (\<lambda>u. Inl (Err ''connection refused''))\<rparr>"
  let ?r = "example_request ''r1'' (Inr 1)"
  have rr: "readRoom ?q ?r
      = ([SlogError MsgFailedToGetRoom (Err ''connection refused''),
          HttpError MsgSomethingWentWrong StatusInternalServerError], None)"
    by (simp add: readRoom_def example_Queries_def example_request_def)
  then have "snd (readRoom ?q ?r) = None" by simp
  with readRoom_outcomes [of ?q ?r 10 NewHandler]
  have "handleSubscribe ?q ?r 10 NewHandler = (fst (readRoom ?q ?r), NewHandler) \<and>
      handleCreateRoomMessage ?q ?r = fst (readRoom ?q ?r)"
    by blast
  with rr show ?thesis by simp
qed

subsection \<open>A subscribe request that is not accepted\<close>

text \<open>
  C8. When the room identifier does not parse, \<open>GetRoom\<close> returns an error (the room is
  absent, or the query fails), or the upgrade to a websocket fails, \<open>handleSubscribe\<close>
  ends with an \<open>http.Error\<close> reply of status 400 or 500 and leaves the whole state as it
  was: nothing is registered and no run is left blocked.
\<close>

theorem handleSubscribe_not_accepted:
  assumes "uuid_Parse q (room_id r) = None \<or>
           (\<exists>u e. uuid_Parse q (room_id r) = Some u \<and> GetRoom q u = Inl e) \<or>
           (\<exists>e. Upgrade r = Inl e)"
  shows "snd (handleSubscribe q r k h) = h \<and>
         fst (handleSubscribe q r k h) \<noteq> [] \<and>
         (\<exists>m code. last (fst (handleSubscribe q r k h)) = HttpError m code \<and>
            (code = StatusBadRequest \<or> code = StatusInternalServerError))"
proof (cases "snd (readRoom q r)")
  case None
  then have hs: "handleSubscribe q r k h = (fst (readRoom q r), h)"
    by (rule readRoom_failed_callers)
  from None readRoom_cases [of q r] show ?thesis
    unfolding hs by auto
next
  case (Some t)
  with readRoom_cases [of q r] obtain u room
    where ok: "uuid_Parse q (room_id r) = Some u" "GetRoom q u = Inr room"
      "readRoom q r = ([], Some (room, room_id r, u))"
    by auto
  with assms obtain e where "Upgrade r = Inl e" by auto
  with ok show ?thesis by (simp add: handleSubscribe_def)
qed

theorem handleSubscribe_not_accepted_witness:
  "Upgrade (example_request ''r1'' (Inl (Err ''not a websocket handshake'')))
     = Inl (Err ''not a websocket handshake'') \<and>
   handleSubscribe example_Queries
     (example_request ''r1'' (Inl (Err ''not a websocket handshake''))) 10 two_subscribers
   = ([SlogWarn MsgFailedToUpgradeConnection (Err ''not a websocket handshake''),
       HttpError MsgFailedToUpgradeConnection StatusBadRequest], two_subscribers) \<and>
   snd (handleSubscribe example_Queries
     (example_request ''r1'' (Inl (Err ''not a websocket handshake''))) 10 two_subscribers)
   = two_subscribers"
proof -
  let ?r = "example_request ''r1'' (Inl (Err ''not a websocket handshake''))"
  have u: "Upgrade ?r = Inl (Err ''not a websocket handshake'')"
    by (simp add: example_request_def)
  then have "\<exists>e. Upgrade ?r = Inl e" by blast
  then have s: "snd (handleSubscribe example_Queries ?r 10 two_subscribers) = two_subscribers"
    using handleSubscribe_not_accepted [of example_Queries ?r 10 two_subscribers] by blast
  have "fst (handleSubscribe example_Queries ?r 10 two_subscribers)
      = [SlogWarn MsgFailedToUpgradeConnection (Err ''not a websocket handshake''),
         HttpError MsgFailedToUpgradeConnection StatusBadRequest]"
    by (simp add: handleSubscribe_def readRoom_def example_Queries_def example_request_def)
  with s u show ?thesis by (simp add: prod_eq_iff)
qed

subsection \<open>Listing rooms and messages\<close>

lemma marshal_slice_array:
  "\<exists>ys. marshal_slice enc (if xs = None then Some [] else xs) = JArray ys"
  by (cases xs) simp_all

lemma handleGetRooms_no_null: "Write JNull \<notin> set (handleGetRooms q r)"
proof (cases "GetRooms q")
  case (Inl e)
  then show ?thesis by (simp add: handleGetRooms_def)
next
  case (Inr rooms)
  obtain ys where "marshal_slice (marshal_Room q) (if rooms = None then Some [] else rooms)
      = JArray ys"
    using marshal_slice_array by blast
  with Inr show ?thesis by (simp add: handleGetRooms_def sendJSON_def)
qed

lemma handleGetRoomMessages_no_null: "Write JNull \<notin> set (handleGetRoomMessages q r)"
proof (cases "snd (readRoom q r)")
  case None
  then have "handleGetRoomMessages q r = fst (readRoom q r)"
    by (rule readRoom_failed_callers)
  with readRoom_cases [of q r] show ?thesis by auto
next
  case (Some t)
  with readRoom_cases [of q r] obtain u room
    where ok: "readRoom q r = ([], Some (room, room_id r, u))"
    by auto
  show ?thesis
  proof (cases "GetRoomMessages q u")
    case (Inl e)
    with ok show ?thesis by (simp add: handleGetRoomMessages_def)
  next
    case (Inr messages)
    obtain ys where
      "marshal_slice (marshal_pgMessage q) (if messages = None then Some [] else messages)
        = JArray ys"
      using marshal_slice_array by blast
    with ok Inr show ?thesis by (simp add: handleGetRoomMessages_def sendJSON_def)
  qed
qed

text \<open>
  C10. When \<open>GetRooms\<close> succeeds with the nil slice, \<open>handleGetRooms\<close> writes the empty
  array; when the room resolves and \<open>GetRoomMessages\<close> succeeds with the nil slice,
  \<open>handleGetRoomMessages\<close> writes the empty array. Neither handler ever writes \<open>null\<close>.
\<close>

theorem nil_slice_written_as_empty_array:
  "(GetRooms q = Inr None \<longrightarrow>
      handleGetRooms q r = [SetHeader ''Content-Type'' ''application/json'', Write (JArray [])]) \<and>
   (\<forall>roomID room.
      uuid_Parse q (room_id r) = Some roomID \<longrightarrow> GetRoom q roomID = Inr room \<longrightarrow>
      GetRoomMessages q roomID = Inr None \<longrightarrow>
      handleGetRoomMessages q r =
        [SetHeader ''Content-Type'' ''application/json'', Write (JArray [])]) \<and>
   Write JNull \<notin> set (handleGetRooms q r) \<and>
   Write JNull \<notin> set (handleGetRoomMessages q r)"
  using handleGetRooms_no_null [of q r] handleGetRoomMessages_no_null [of q r]
  by (simp add: handleGetRooms_def handleGetRoomMessages_def readRoom_def sendJSON_def)

theorem nil_slice_written_as_empty_array_witness:
  "GetRooms example_Queries = Inr None \<and>
   handleGetRooms example_Queries (example_request ''r1'' (Inr 1))
     = [SetHeader ''Content-Type'' ''application/json'', Write (JArray [])] \<and>
   uuid_Parse example_Queries (room_id (example_request ''r1'' (Inr 1))) = Some 1 \<and>
   GetRoom example_Queries 1 = Inr () \<and>
   GetRoomMessages example_Queries 1 = Inr None \<and>
   handleGetRoomMessages example_Queries (example_request ''r1'' (Inr 1))
     = [SetHeader ''Content-Type'' ''application/json'', Write (JArray [])]"
proof -
  let ?r = "example_request ''r1'' (Inr 1)"
  have a: "GetRooms example_Queries = Inr None"
    and b: "uuid_Parse example_Queries (room_id ?r) = Some 1"
    and c: "GetRoom example_Queries 1 = Inr ()"
    and d: "GetRoomMessages example_Queries 1 = Inr None"
    by (simp_all add: example_Queries_def example_request_def)
  from a b c d nil_slice_written_as_empty_array [of example_Queries ?r]
  show ?thesis by blast
qed

subsection \<open>The wire shape of an event\<close>

lemma WriteJSON_notifyClients:
  "WriteJSON c j \<in> set (fst (notifyClients wr msg h)) \<Longrightarrow> j = marshal_Message msg"
  by (auto simp: notifyClients_def dest: WriteJSON_notify_range split: option.splits if_splits)

lemma Go_readRoom: "Go msg \<notin> set (fst (readRoom q r))"
  using readRoom_cases [of q r] by auto

lemma Go_handleCreateRoomMessage:
  assumes "Go msg \<in> set (handleCreateRoomMessage q r)"
  shows "\<exists>i m. Kind msg = MessageKindMessageCreated \<and> Value msg = MessageMessageCreated i m"
proof (cases "snd (readRoom q r)")
  case None
  then have "handleCreateRoomMessage q r = fst (readRoom q r)"
    by (rule readRoom_failed_callers)
  with assms Go_readRoom [of msg q r] show ?thesis by simp
next
  case (Some t)
  with readRoom_cases [of q r] obtain u room
    where ok: "readRoom q r = ([], Some (room, room_id r, u))"
    by auto
  show ?thesis
  proof (cases "Body r")
    case (Inl e)
    with ok assms show ?thesis by (simp add: handleCreateRoomMessage_def)
  next
    case (Inr message)
    show ?thesis
    proof (cases "InsertMessage q u message")
      case (Inl e)
      with ok Inr assms show ?thesis by (simp add: handleCreateRoomMessage_def)
    next
      case ins: (Inr messageID)
      with ok Inr assms show ?thesis
        by (auto simp: handleCreateRoomMessage_def sendJSON_def)
    qed
  qed
qed

lemma Go_handleReactToMessage:
  assumes "Go msg \<in> set (handleReactToMessage q r)"
  shows "\<exists>i n. Kind msg = MessageKindMessageRactionIncreased \<and>
           Value msg = MessageMessageReactionCount i n"
proof (cases "snd (readRoom q r)")
  case None
  then have "handleReactToMessage q r = fst (readRoom q r)"
    by (rule readRoom_failed_callers)
  with assms Go_readRoom [of msg q r] show ?thesis by simp
next
  case (Some t)
  with readRoom_cases [of q r] obtain u room
    where ok: "readRoom q r = ([], Some (room, room_id r, u))"
    by auto
  show ?thesis
  proof (cases "uuid_Parse q (message_id r)")
    case None
    with ok assms show ?thesis by (simp add: handleReactToMessage_def)
  next
    case parsed: (Some messageID)
    show ?thesis
    proof (cases "ReactToMessage q messageID")
      case (Inl e)
      with ok parsed assms show ?thesis by (simp add: handleReactToMessage_def)
    next
      case (Inr count)
      with ok parsed assms show ?thesis
        by (auto simp: handleReactToMessage_def sendJSON_def)
    qed
  qed
qed

lemma Go_ServeHTTP:
  assumes "Go msg \<in> set (fst (ServeHTTP route q r k h))"
  shows "Go msg \<in> set (handleCreateRoomMessage q r) \<or> Go msg \<in> set (handleReactToMessage q r)"
proof (cases route)
  case GET_subscribe
  show ?thesis
  proof (cases "snd (readRoom q r)")
    case None
    then have "handleSubscribe q r k h = (fst (readRoom q r), h)"
      by (rule readRoom_failed_callers)
    with assms GET_subscribe Go_readRoom [of msg q r] show ?thesis by simp
  next
    case (Some t)
    with readRoom_cases [of q r] obtain u room
      where ok: "readRoom q r = ([], Some (room, room_id r, u))"
      by auto
    with assms GET_subscribe show ?thesis
      by (cases "Upgrade r") (simp_all add: handleSubscribe_def)
  qed
next
  case GET_rooms
  with assms show ?thesis
    by (cases "GetRooms q") (simp_all add: handleGetRooms_def sendJSON_def)
next
  case POST_rooms
  with assms show ?thesis
    by (auto simp: handleCreateRoom_def sendJSON_def split: sum.splits)
next
  case GET_room
  show ?thesis
  proof (cases "snd (readRoom q r)")
    case None
    then have "handleGetRoom q r = fst (readRoom q r)"
      by (rule readRoom_failed_callers)
    with assms GET_room Go_readRoom [of msg q r] show ?thesis by simp
  next
    case (Some t)
    with readRoom_cases [of q r] obtain u room
      where ok: "readRoom q r = ([], Some (room, room_id r, u))"
      by auto
    with assms GET_room show ?thesis by (simp add: handleGetRoom_def sendJSON_def)
  qed
next
  case GET_messages
  show ?thesis
  proof (cases "snd (readRoom q r)")
    case None
    then have "handleGetRoomMessages q r = fst (readRoom q r)"
      by (rule readRoom_failed_callers)
    with assms GET_messages Go_readRoom [of msg q r] show ?thesis by simp
  next
    case (Some t)
    with readRoom_cases [of q r] obtain u room
      where ok: "readRoom q r = ([], Some (room, room_id r, u))"
      by auto
    with assms GET_messages show ?thesis
      by (cases "GetRoomMessages q u") (simp_all add: handleGetRoomMessages_def sendJSON_def)
  qed
next
  case POST_messages
  with assms show ?thesis by simp
next
  case GET_message
  show ?thesis
  proof (cases "snd (readRoom q r)")
    case None
    then have "handleGetRoomMessage q r = fst (readRoom q r)"
      by (rule readRoom_failed_callers)
    with assms GET_message Go_readRoom [of msg q r] show ?thesis by simp
  next
    case (Some t)
    with readRoom_cases [of q r] obtain u room
      where ok: "readRoom q r = ([], Some (room, room_id r, u))"
      by auto
    with assms GET_message show ?thesis
      by (auto simp: handleGetRoomMessage_def sendJSON_def Let_def
          split: option.splits sum.splits if_splits)
  qed
next
  case PATCH_react
  with assms show ?thesis by simp
next
  case DELETE_react
  with assms show ?thesis by (simp add: handleRemoveReactFromMessage_def)
next
  case PATCH_answer
  with assms show ?thesis by (simp add: handleMarkMessageAsAnswered_def)
qed

text \<open>
  C7. Whatever the route, a request starts \<open>notifyClients\<close> only from
  \<open>handleCreateRoomMessage\<close> and \<open>handleReactToMessage\<close>. Every document that a dispatch
  of an event started by a request writes to a subscriber is an object with exactly the
  fields \<open>kind\<close> and \<open>value\<close>, in this order; \<open>kind\<close> is one of the four kind strings; for
  \<open>message_created\<close> the value is an object with the fields \<open>id\<close> and \<open>message\<close>, for
  \<open>message_reaction_increased\<close> one with the fields \<open>id\<close> and \<open>count\<close>; and the document
  is the same whatever the event's room identifier is.
\<close>

theorem delivered_event_wire_shape:
  assumes "Go msg \<in> set (fst (ServeHTTP route q r k h0))"
    and "WriteJSON c j \<in> set (fst (notifyClients wr msg h))"
  shows "(\<exists>kind v. j = JObject [(''kind'', JString kind), (''value'', v)] \<and>
            kind \<in> {MessageKindMessageCreated, MessageKindMessageRactionIncreased,
                     MessageKindMessageRactionDecreased, MessageKindMessageAnswered} \<and>
            (kind = MessageKindMessageCreated \<longrightarrow>
               (\<exists>i m. v = JObject [(''id'', JString i), (''message'', JString m)])) \<and>
            (kind = MessageKindMessageRactionIncreased \<longrightarrow>
               (\<exists>i n. v = JObject [(''id'', JString i), (''count'', JNumber n)]))) \<and>
         (\<forall>room. marshal_Message (msg\<lparr>RoomID := room\<rparr>) = j)"
proof -
  from assms(2) have j: "j = marshal_Message msg" by (rule WriteJSON_notifyClients)
  have indep: "marshal_Message (msg\<lparr>RoomID := room\<rparr>) = j" for room
    by (simp add: j marshal_Message_def)
  from assms(1)
  have "Go msg \<in> set (handleCreateRoomMessage q r) \<or> Go msg \<in> set (handleReactToMessage q r)"
    by (rule Go_ServeHTTP)
  then show ?thesis
  proof
    assume "Go msg \<in> set (handleCreateRoomMessage q r)"
    then obtain i m where "Kind msg = MessageKindMessageCreated"
      "Value msg = MessageMessageCreated i m"
      using Go_handleCreateRoomMessage by blast
    then have "j = JObject [(''kind'', JString MessageKindMessageCreated),
        (''value'', JObject [(''id'', JString i), (''message'', JString m)])]"
      by (simp add: j marshal_Message_def)
    with indep show ?thesis by simp
  next
    assume "Go msg \<in> set (handleReactToMessage q r)"
    then obtain i n where "Kind msg = MessageKindMessageRactionIncreased"
      "Value msg = MessageMessageReactionCount i n"
      using Go_handleReactToMessage by blast
    then have "j = JObject [(''kind'', JString MessageKindMessageRactionIncreased),
        (''value'', JObject [(''id'', JString i), (''count'', JNumber (sint n))])]"
      by (simp add: j marshal_Message_def)
    with indep show ?thesis by simp
  qed
qed

theorem delivered_event_wire_shape_witness:
  "Go \<lparr>Kind = MessageKindMessageCreated, Value = MessageMessageCreated ''u'' ''hi'',
       RoomID = ''r1''\<rparr>
     \<in> set (fst (ServeHTTP POST_messages example_Queries (example_request ''r1'' (Inr 1)) 10
         two_subscribers)) \<and>
   WriteJSON 2
     (JObject [(''kind'', JString ''message_created''),
               (''value'', JObject [(''id'', JString ''u''), (''message'', JString ''hi'')])])
     \<in> set (fst (notifyClients [1 \<mapsto> Err ''broken pipe'']
         \<lparr>Kind = MessageKindMessageCreated, Value = MessageMessageCreated ''u'' ''hi'',
          RoomID = ''r1''\<rparr> two_subscribers)) \<and>
   marshal_Message
     \<lparr>Kind = MessageKindMessageCreated, Value = MessageMessageCreated ''u'' ''hi'',
      RoomID = ''r2''\<rparr>
   = JObject [(''kind'', JString ''message_created''),
              (''value'', JObject [(''id'', JString ''u''), (''message'', JString ''hi'')])]"
proof -
  let ?m = "\<lparr>Kind = MessageKindMessageCreated, Value = MessageMessageCreated ''u'' ''hi'',
      RoomID = ''r1''\<rparr>"
  let ?j = "JObject [(''kind'', JString ''message_created''),
      (''value'', JObject [(''id'', JString ''u''), (''message'', JString ''hi'')])]"
  have g: "Go ?m \<in> set (fst (ServeHTTP POST_messages example_Queries
      (example_request ''r1'' (Inr 1)) 10 two_subscribers))"
    by (simp add: handleCreateRoomMessage_def readRoom_def sendJSON_def example_Queries_def
        example_request_def)
  have w: "WriteJSON 2 ?j
      \<in> set (fst (notifyClients [1 \<mapsto> Err ''broken pipe''] ?m two_subscribers))"
    by (simp add: notifyClients_def two_subscribers_def marshal_Message_def)
  from delivered_event_wire_shape
    [of ?m POST_messages example_Queries "example_request ''r1'' (Inr 1)" 10 two_subscribers
      2 ?j "[1 \<mapsto> Err ''broken pipe'']" two_subscribers] g w
  have "marshal_Message (?m\<lparr>RoomID := ''r2''\<rparr>) = ?j" by blast
  with g w show ?thesis by simp
qed

subsection \<open>The sets of the registry in a run\<close>

lemma set_update_subset: "set (AList.update c k subs) \<subseteq> insert (c, k) (set subs)"
  by (induction subs) auto

lemma set_delete_iff: "(c', k) \<in> set (AList.delete c subs) \<longleftrightarrow> (c', k) \<in> set subs \<and> c' \<noteq> c"
  by (auto simp: AList.delete_eq)

lemma registry_wf_NewHandler: "registry_wf NewHandler"
  by (simp add: registry_wf_def NewHandler_def)

lemma registry_wf_cancels: "registry_wf h \<Longrightarrow> distinct (map lc_cancel (waiting h))"
  unfolding registry_wf_def by blast

lemma registry_wf_keys:
  "registry_wf h \<Longrightarrow> subscribers h room = Some subs \<Longrightarrow> distinct (map fst subs)"
  unfolding registry_wf_def by blast

lemma registry_wf_entry:
  "registry_wf h \<Longrightarrow> subscribers h room = Some subs \<Longrightarrow> (c, k) \<in> set subs \<Longrightarrow>
   \<lparr>lc_room = room, lc_conn = c, lc_cancel = k\<rparr> \<in> set (waiting h)"
  unfolding registry_wf_def by blast

lemma registry_wf_cong:
  "registry_wf h \<Longrightarrow> subscribers h' = subscribers h \<Longrightarrow> waiting h' = waiting h \<Longrightarrow>
   registry_wf h'"
  by (simp add: registry_wf_def)

lemma registry_wf_handleSubscribe:
  assumes "registry_wf h" and "fresh r k h"
  shows "registry_wf (snd (handleSubscribe q r k h))"
proof (cases "snd (readRoom q r)")
  case None
  then have "handleSubscribe q r k h = (fst (readRoom q r), h)"
    by (rule readRoom_failed_callers)
  with assms(1) show ?thesis by simp
next
  case (Some t)
  with readRoom_cases [of q r] obtain u room
    where ok: "readRoom q r = ([], Some (room, room_id r, u))"
    by auto
  show ?thesis
  proof (cases "Upgrade r")
    case (Inl e)
    with ok assms(1) show ?thesis by (simp add: handleSubscribe_def)
  next
    case (Inr c)
    let ?l = "\<lparr>lc_room = room_id r, lc_conn = c, lc_cancel = k\<rparr>"
    let ?old = "case subscribers h (room_id r) of None \<Rightarrow> [] | Some m \<Rightarrow> m"
    let ?h' = "snd (handleSubscribe q r k h)"
    have w: "waiting ?h' = ?l # waiting h"
      using ok Inr by (simp add: handleSubscribe_def register_def Let_def)
    have s: "subscribers ?h' = (subscribers h)(room_id r \<mapsto> AList.update c k ?old)"
      using ok Inr by (simp add: handleSubscribe_def register_def Let_def)
    from assms(2) have "k \<notin> lc_cancel ` set (waiting h)" by (simp add: fresh_def)
    with registry_wf_cancels [OF assms(1)] have d: "distinct (map lc_cancel (waiting ?h'))"
      by (simp add: w)
    have old: "distinct (map fst ?old) \<and>
        (\<forall>c' k'. (c', k') \<in> set ?old \<longrightarrow>
           \<lparr>lc_room = room_id r, lc_conn = c', lc_cancel = k'\<rparr> \<in> set (waiting h))"
    proof (cases "subscribers h (room_id r)")
      case None
      then show ?thesis by simp
    next
      case (Some m)
      with registry_wf_keys [OF assms(1) Some] registry_wf_entry [OF assms(1) Some]
      show ?thesis by simp
    qed
    have e: "distinct (map fst subs) \<and>
        (\<forall>c' k'. (c', k') \<in> set subs \<longrightarrow>
           \<lparr>lc_room = room', lc_conn = c', lc_cancel = k'\<rparr> \<in> set (waiting ?h'))"
      if sub: "subscribers ?h' room' = Some subs" for room' subs
    proof (cases "room' = room_id r")
      case True
      with sub have subs: "subs = AList.update c k ?old" by (simp add: s)
      have "distinct (map fst subs)"
        unfolding subs using old by (simp add: distinct_update)
      moreover have "\<lparr>lc_room = room', lc_conn = c', lc_cancel = k'\<rparr> \<in> set (waiting ?h')"
        if "(c', k') \<in> set subs" for c' k'
      proof -
        from that set_update_subset [of c k ?old]
        have "(c', k') = (c, k) \<or> (c', k') \<in> set ?old" by (auto simp: subs)
        with old True show ?thesis by (auto simp: w)
      qed
      ultimately show ?thesis by blast
    next
      case False
      with sub have o: "subscribers h room' = Some subs" by (simp add: s)
      from registry_wf_keys [OF assms(1) o] registry_wf_entry [OF assms(1) o]
      show ?thesis by (simp add: w)
    qed
    from d e show ?thesis unfolding registry_wf_def by blast
  qed
qed

lemma registry_wf_handleSubscribe_done:
  assumes "registry_wf h"
  shows "registry_wf (snd (handleSubscribe_done l h))"
proof -
  let ?h' = "snd (handleSubscribe_done l h)"
  have w: "waiting ?h' = filter (\<lambda>l'. l' \<noteq> l) (waiting h)"
    by (simp add: handleSubscribe_done_def)
  have d: "distinct (map lc_cancel (waiting ?h'))"
    using registry_wf_cancels [OF assms] by (simp add: w distinct_map_filter)
  have e: "distinct (map fst subs) \<and>
      (\<forall>c' k'. (c', k') \<in> set subs \<longrightarrow>
         \<lparr>lc_room = room', lc_conn = c', lc_cancel = k'\<rparr> \<in> set (waiting ?h'))"
    if sub: "subscribers ?h' room' = Some subs" for room' subs
  proof (cases "room' = lc_room l")
    case True
    from sub obtain old where old: "subscribers h room' = Some old"
      and subs: "subs = AList.delete (lc_conn l) old"
      by (auto simp: handleSubscribe_done_def unregister_def True split: option.splits)
    have o: "distinct (map fst old)"
      "\<And>c' k'. (c', k') \<in> set old \<Longrightarrow>
         \<lparr>lc_room = room', lc_conn = c', lc_cancel = k'\<rparr> \<in> set (waiting h)"
      using registry_wf_keys [OF assms old] registry_wf_entry [OF assms old] by simp_all
    have "distinct (map fst subs)"
      unfolding subs using o(1) by (rule distinct_delete)
    moreover have "\<lparr>lc_room = room', lc_conn = c', lc_cancel = k'\<rparr> \<in> set (waiting ?h')"
      if "(c', k') \<in> set subs" for c' k'
    proof -
      from that have "(c', k') \<in> set old" and ne: "c' \<noteq> lc_conn l"
        by (simp_all add: subs set_delete_iff)
      then have "\<lparr>lc_room = room', lc_conn = c', lc_cancel = k'\<rparr> \<in> set (waiting h)"
        by (simp add: o(2))
      moreover from ne have "\<lparr>lc_room = room', lc_conn = c', lc_cancel = k'\<rparr> \<noteq> l" by auto
      ultimately show ?thesis by (simp add: w)
    qed
    ultimately show ?thesis by blast
  next
    case False
    with sub have old: "subscribers h room' = Some subs"
      by (auto simp: handleSubscribe_done_def unregister_def split: option.splits)
    have "\<lparr>lc_room = room', lc_conn = c', lc_cancel = k'\<rparr> \<in> set (waiting ?h')"
      if "(c', k') \<in> set subs" for c' k'
    proof -
      from assms old that
      have "\<lparr>lc_room = room', lc_conn = c', lc_cancel = k'\<rparr> \<in> set (waiting h)"
        by (rule registry_wf_entry)
      moreover from False have "\<lparr>lc_room = room', lc_conn = c', lc_cancel = k'\<rparr> \<noteq> l" by auto
      ultimately show ?thesis by (simp add: w)
    qed
    moreover from assms old have "distinct (map fst subs)" by (rule registry_wf_keys)
    ultimately show ?thesis by blast
  qed
  from d e show ?thesis unfolding registry_wf_def by blast
qed

lemma registry_wf_step:
  assumes "registry_wf h" and "step a h = Some (es, h')"
  shows "registry_wf h'"
proof (cases a)
  case (Subscribe q r k)
  with assms(2) have "fresh r k h" "h' = snd (handleSubscribe q r k h)"
    by (auto split: if_splits)
  with assms(1) show ?thesis by (simp add: registry_wf_handleSubscribe)
next
  case (ParentDone k)
  with assms(2) have "subscribers h' = subscribers h" "waiting h' = waiting h" by auto
  with assms(1) show ?thesis by (rule registry_wf_cong)
next
  case (Resume l)
  with assms(2) have "handleSubscribe_done l h = (es, h')" by (simp split: if_splits)
  then have "h' = snd (handleSubscribe_done l h)" by simp
  with assms(1) show ?thesis by (simp add: registry_wf_handleSubscribe_done)
next
  case (Notify wr msg)
  with assms(2) have "subscribers h' = subscribers h" "waiting h' = waiting h"
    using notifyClients_frame [of wr msg h] by auto
  with assms(1) show ?thesis by (rule registry_wf_cong)
qed

lemma registry_wf_exec:
  "registry_wf h \<Longrightarrow> exec as h = Some (es, h') \<Longrightarrow> registry_wf h'"
proof (induction as arbitrary: h es)
  case Nil
  then show ?case by simp
next
  case (Cons a as)
  from Cons.prems(2) obtain es1 h1 es2 where s: "step a h = Some (es1, h1)"
    and e: "exec as h1 = Some (es2, h')"
    by (auto split: option.splits prod.splits)
  from Cons.prems(1) s have "registry_wf h1" by (rule registry_wf_step)
  then show ?case using e by (rule Cons.IH)
qed

text \<open>
  In every state of a run from \<open>NewHandler\<close>, the entries of a room's set have distinct
  connections and distinct contexts: the conditions under which the properties of a
  dispatch are stated hold whenever a dispatch can run.
\<close>

lemma reachable_distinct:
  assumes "exec as NewHandler = Some (es, h)" and "subscribers h room = Some subs"
  shows "distinct (map fst subs) \<and> distinct (map snd subs)"
proof -
  have wf: "registry_wf h"
    using registry_wf_NewHandler assms(1) by (rule registry_wf_exec)
  have f: "distinct (map fst subs)"
    and m: "\<And>c k. (c, k) \<in> set subs \<Longrightarrow>
        \<lparr>lc_room = room, lc_conn = c, lc_cancel = k\<rparr> \<in> set (waiting h)"
    using registry_wf_keys [OF wf assms(2)] registry_wf_entry [OF wf assms(2)] by simp_all
  from registry_wf_cancels [OF wf] have inj: "inj_on lc_cancel (set (waiting h))"
    by (simp add: distinct_map)
  have "inj_on snd (set subs)"
  proof (rule inj_onI)
    fix x y
    assume x: "x \<in> set subs" and y: "y \<in> set subs" and eq: "snd x = snd y"
    obtain c k where xe: "x = (c, k)" by (cases x)
    obtain c' k' where ye: "y = (c', k')" by (cases y)
    from eq xe ye have k: "k' = k" by simp
    from x xe m have lx: "\<lparr>lc_room = room, lc_conn = c, lc_cancel = k\<rparr> \<in> set (waiting h)"
      by simp
    from y ye k m have ly: "\<lparr>lc_room = room, lc_conn = c', lc_cancel = k\<rparr> \<in> set (waiting h)"
      by simp
    from inj_onD [OF inj _ lx ly] have "c = c'" by simp
    with xe ye k show "x = y" by simp
  qed
  moreover from f have "distinct subs" by (rule distinct_map [THEN iffD1, THEN conjunct1])
  ultimately have "distinct (map snd subs)" by (simp add: distinct_map)
  with f show ?thesis by simp
qed

end
